theory Spec2Isabelle
  imports Main
begin

section \<open>Values, dynamic types and the store\<close>

text \<open>
  The package works on values of the Go interface type \<open>Interface\<close>. Such a value is either
  the nil interface or a dynamic type together with a value of that type. The source
  declares two implementing types, \<open>StringSet\<close> (a \<open>map[string]bool\<close>) and \<open>IntSet\<close>
  (a \<open>map[int]bool\<close>); a client package may declare further ones. A Go map value is a
  reference (possibly nil) to a table that lives in the heap, so the tables are kept in an
  explicit store and two interface values may refer to the same table.
\<close>

type_synonym addr = nat

text \<open>The values of type \<open>interface{}\<close> that occur as elements.\<close>

datatype elem = EString string | EInt int

text \<open>\<open>reflect.Kind\<close>: the three kinds \<open>newSet\<close> names, and some of the others.\<close>

datatype kind = KMap | KSlice | KStruct | KPtr | KChan | KFunc | KArray | KInt | KString

text \<open>
  \<open>reflect.Type\<close>: the two types of the source, or a type declared elsewhere, given by
  its name and its kind. The nil \<open>reflect.Type\<close> is \<open>None\<close> of \<open>rtype option\<close>.
\<close>

datatype rtype = StringSet | IntSet | Other string kind

fun Kind :: "rtype \<Rightarrow> kind" where
  "Kind StringSet = KMap"
| "Kind IntSet = KMap"
| "Kind (Other n k) = k"

text \<open>
  What is known of a value whose type is declared outside the source: nothing
  (\<open>Opaque\<close>), or that it is what \<open>reflect.MakeMap\<close>, \<open>reflect.MakeSlice\<close> (with its
  capacity) or \<open>reflect.Zero\<close> has just made.
\<close>

datatype content = Opaque | EmptyMap | EmptySlice int | ZeroValue

datatype iface =
    NilInterface
  | StringSetV "addr option"
  | IntSetV "addr option"
  | OtherV string kind content

fun TypeOf :: "iface \<Rightarrow> rtype option" where
  "TypeOf NilInterface = None"
| "TypeOf (StringSetV r) = Some StringSet"
| "TypeOf (IntSetV r) = Some IntSet"
| "TypeOf (OtherV n k c) = Some (Other n k)"

text \<open>The calls made through \<open>Interface\<close>, recorded in the order they happen.\<close>

datatype call = CLen iface | CContains iface elem | CInsert iface elem
  | CRemove iface elem | CValues iface

record state =
  strs :: "addr \<Rightarrow> (string \<rightharpoonup> bool)"
  ints :: "addr \<Rightarrow> (int \<rightharpoonup> bool)"
  nxt :: addr
  calls :: "call list"

text \<open>
  Every panic of the source and of the runtime below it is a value. \<open>TypesDoNotMatch\<close> is
  the panic "Set types %s and %s do not match", \<open>UnsupportedSetType\<close> the panic
  "Unsupported set type: %s". \<open>OutsideSource\<close> marks a call of a method of a type
  declared outside the source, where the model stops; \<open>NoSuchRun\<close> marks an order of
  delivery that is no enumeration of the keys of the map, which no run of the program shows.
  A panic unwinds to the caller and leaves the store as it is at that moment, so a failed
  run is the panic together with that state.
\<close>

datatype error =
    TypesDoNotMatch "rtype option" "rtype option"
  | UnsupportedSetType rtype
  | NilDereference
  | NilMapAssignment
  | TypeAssertion elem
  | ReflectPanic
  | OutsideSource string
  | NoSuchRun

type_synonym 'a prog = "state \<Rightarrow> (error \<times> state) + ('a \<times> state)"

definition ret :: "'a \<Rightarrow> 'a prog" where
  "ret x = (\<lambda>st. Inr (x, st))"

definition panic :: "error \<Rightarrow> 'a prog" where
  "panic e = (\<lambda>st. Inl (e, st))"

definition bnd :: "'a prog \<Rightarrow> ('a \<Rightarrow> 'b prog) \<Rightarrow> 'b prog" where
  "bnd m f = (\<lambda>st. case m st of Inl e \<Rightarrow> Inl e | Inr (x, st') \<Rightarrow> f x st')"

definition record_call :: "call \<Rightarrow> unit prog" where
  "record_call c = (\<lambda>st. Inr ((), st\<lparr>calls := calls st @ [c]\<rparr>))"

text \<open>Reading through a map reference: a nil map reads as the empty map.\<close>

definition str_map :: "state \<Rightarrow> addr option \<Rightarrow> (string \<rightharpoonup> bool)" where
  "str_map st r = (case r of None \<Rightarrow> Map.empty | Some a \<Rightarrow> strs st a)"

definition int_map :: "state \<Rightarrow> addr option \<Rightarrow> (int \<rightharpoonup> bool)" where
  "int_map st r = (case r of None \<Rightarrow> Map.empty | Some a \<Rightarrow> ints st a)"

section \<open>The methods of \<open>StringSet\<close> and \<open>IntSet\<close>\<close>

definition StringSet_Len :: "addr option \<Rightarrow> int prog" where
  "StringSet_Len r = (\<lambda>st. Inr (int (card (dom (str_map st r))), st))"

definition StringSet_Contains :: "addr option \<Rightarrow> elem \<Rightarrow> bool prog" where
  "StringSet_Contains r x =
     (case x of
        EString k \<Rightarrow> (\<lambda>st. Inr (str_map st r k \<noteq> None, st))
      | _ \<Rightarrow> panic (TypeAssertion x))"

definition StringSet_Insert :: "addr option \<Rightarrow> elem \<Rightarrow> unit prog" where
  "StringSet_Insert r x =
     (case x of
        EString k \<Rightarrow>
          (case r of
             None \<Rightarrow> panic NilMapAssignment
           | Some a \<Rightarrow> (\<lambda>st. Inr ((), st\<lparr>strs := (strs st)(a := (strs st a)(k \<mapsto> True))\<rparr>)))
      | _ \<Rightarrow> panic (TypeAssertion x))"

definition StringSet_Remove :: "addr option \<Rightarrow> elem \<Rightarrow> unit prog" where
  "StringSet_Remove r x =
     (case x of
        EString k \<Rightarrow>
          (case r of
             None \<Rightarrow> ret ()
           | Some a \<Rightarrow> (\<lambda>st. Inr ((), st\<lparr>strs := (strs st)(a := (strs st a)(k := None))\<rparr>)))
      | _ \<Rightarrow> panic (TypeAssertion x))"

text \<open>
  \<open>Values\<close> starts a goroutine that ranges over the map and sends each key on a channel.
  Go leaves the order of a range over a map open, so the order \<open>vs\<close> in which the channel
  delivers is a parameter of the run; it must list every key of the map once. The
  interface forbids writing to the set until the channel is closed, and the operations
  below write only to the set they have made, so the keys are those at the call.
\<close>

definition StringSet_Values :: "elem list \<Rightarrow> addr option \<Rightarrow> (elem list) prog" where
  "StringSet_Values vs r =
     (\<lambda>st. if distinct vs \<and> set vs = EString ` dom (str_map st r)
           then Inr (vs, st) else Inl (NoSuchRun, st))"

definition IntSet_Len :: "addr option \<Rightarrow> int prog" where
  "IntSet_Len r = (\<lambda>st. Inr (int (card (dom (int_map st r))), st))"

definition IntSet_Contains :: "addr option \<Rightarrow> elem \<Rightarrow> bool prog" where
  "IntSet_Contains r x =
     (case x of
        EInt k \<Rightarrow> (\<lambda>st. Inr (int_map st r k \<noteq> None, st))
      | _ \<Rightarrow> panic (TypeAssertion x))"

definition IntSet_Insert :: "addr option \<Rightarrow> elem \<Rightarrow> unit prog" where
  "IntSet_Insert r x =
     (case x of
        EInt k \<Rightarrow>
          (case r of
             None \<Rightarrow> panic NilMapAssignment
           | Some a \<Rightarrow> (\<lambda>st. Inr ((), st\<lparr>ints := (ints st)(a := (ints st a)(k \<mapsto> True))\<rparr>)))
      | _ \<Rightarrow> panic (TypeAssertion x))"

definition IntSet_Remove :: "addr option \<Rightarrow> elem \<Rightarrow> unit prog" where
  "IntSet_Remove r x =
     (case x of
        EInt k \<Rightarrow>
          (case r of
             None \<Rightarrow> ret ()
           | Some a \<Rightarrow> (\<lambda>st. Inr ((), st\<lparr>ints := (ints st)(a := (ints st a)(k := None))\<rparr>)))
      | _ \<Rightarrow> panic (TypeAssertion x))"

definition IntSet_Values :: "elem list \<Rightarrow> addr option \<Rightarrow> (elem list) prog" where
  "IntSet_Values vs r =
     (\<lambda>st. if distinct vs \<and> set vs = EInt ` dom (int_map st r)
           then Inr (vs, st) else Inl (NoSuchRun, st))"

section \<open>Calls through \<open>Interface\<close>\<close>

text \<open>
  A method call on an interface value goes to the method of its dynamic type; on the nil
  interface it panics.
\<close>

definition Len :: "iface \<Rightarrow> int prog" where
  "Len s = bnd (record_call (CLen s)) (\<lambda>_.
     case s of
       NilInterface \<Rightarrow> panic NilDereference
     | StringSetV r \<Rightarrow> StringSet_Len r
     | IntSetV r \<Rightarrow> IntSet_Len r
     | OtherV n k c \<Rightarrow> panic (OutsideSource n))"

definition Contains :: "iface \<Rightarrow> elem \<Rightarrow> bool prog" where
  "Contains s x = bnd (record_call (CContains s x)) (\<lambda>_.
     case s of
       NilInterface \<Rightarrow> panic NilDereference
     | StringSetV r \<Rightarrow> StringSet_Contains r x
     | IntSetV r \<Rightarrow> IntSet_Contains r x
     | OtherV n k c \<Rightarrow> panic (OutsideSource n))"

definition Insert :: "iface \<Rightarrow> elem \<Rightarrow> unit prog" where
  "Insert s x = bnd (record_call (CInsert s x)) (\<lambda>_.
     case s of
       NilInterface \<Rightarrow> panic NilDereference
     | StringSetV r \<Rightarrow> StringSet_Insert r x
     | IntSetV r \<Rightarrow> IntSet_Insert r x
     | OtherV n k c \<Rightarrow> panic (OutsideSource n))"

definition Remove :: "iface \<Rightarrow> elem \<Rightarrow> unit prog" where
  "Remove s x = bnd (record_call (CRemove s x)) (\<lambda>_.
     case s of
       NilInterface \<Rightarrow> panic NilDereference
     | StringSetV r \<Rightarrow> StringSet_Remove r x
     | IntSetV r \<Rightarrow> IntSet_Remove r x
     | OtherV n k c \<Rightarrow> panic (OutsideSource n))"

definition Values :: "elem list \<Rightarrow> iface \<Rightarrow> (elem list) prog" where
  "Values vs s = bnd (record_call (CValues s)) (\<lambda>_.
     case s of
       NilInterface \<Rightarrow> panic NilDereference
     | StringSetV r \<Rightarrow> StringSet_Values vs r
     | IntSetV r \<Rightarrow> IntSet_Values vs r
     | OtherV n k c \<Rightarrow> panic (OutsideSource n))"

section \<open>\<open>newSet\<close>\<close>

text \<open>
  \<open>reflect.MakeMap\<close> allocates a fresh empty table; \<open>reflect.MakeSlice\<close> makes a slice of
  the given length and capacity and panics on a negative capacity; \<open>reflect.Zero\<close> is the
  zero value of the type, the nil map for a map type. The first two panic on a type of
  another kind.
\<close>

fun MakeMap :: "rtype \<Rightarrow> iface prog" where
  "MakeMap StringSet =
     (\<lambda>st. Inr (StringSetV (Some (nxt st)),
                st\<lparr>strs := (strs st)(nxt st := Map.empty), nxt := Suc (nxt st)\<rparr>))"
| "MakeMap IntSet =
     (\<lambda>st. Inr (IntSetV (Some (nxt st)),
                st\<lparr>ints := (ints st)(nxt st := Map.empty), nxt := Suc (nxt st)\<rparr>))"
| "MakeMap (Other n k) = (if k = KMap then ret (OtherV n k EmptyMap) else panic ReflectPanic)"

fun MakeSlice :: "rtype \<Rightarrow> int \<Rightarrow> int \<Rightarrow> iface prog" where
  "MakeSlice (Other n k) len cap =
     (if k \<noteq> KSlice \<or> len < 0 \<or> cap < 0 \<or> cap < len then panic ReflectPanic
      else ret (OtherV n k (if len = 0 then EmptySlice cap else Opaque)))"
| "MakeSlice StringSet len cap = panic ReflectPanic"
| "MakeSlice IntSet len cap = panic ReflectPanic"

fun Zero :: "rtype \<Rightarrow> iface" where
  "Zero StringSet = StringSetV None"
| "Zero IntSet = IntSetV None"
| "Zero (Other n k) = OtherV n k ZeroValue"

definition newSet :: "iface \<Rightarrow> iface \<Rightarrow> int \<Rightarrow> iface prog" where
  "newSet s t capacity =
     (let sType = TypeOf s; tType = TypeOf t in
      if sType \<noteq> tType then panic (TypesDoNotMatch sType tType)
      else case sType of
        None \<Rightarrow> panic NilDereference
      | Some ty \<Rightarrow>
          (case Kind ty of
             KMap \<Rightarrow> MakeMap ty
           | KSlice \<Rightarrow> MakeSlice ty 0 capacity
           | KStruct \<Rightarrow> ret (Zero ty)
           | _ \<Rightarrow> panic (UnsupportedSetType ty)))"

section \<open>The four operations\<close>

text \<open>The loop \<open>for v := range vals { r.Insert(v) }\<close> over the values delivered.\<close>

fun Union_loop :: "iface \<Rightarrow> elem list \<Rightarrow> unit prog" where
  "Union_loop r [] = ret ()"
| "Union_loop r (v # vs) = bnd (Insert r v) (\<lambda>_. Union_loop r vs)"

text \<open>
  \<open>Union_op\<close> is the function \<open>Union\<close> of the package, whose name HOL has taken for the
  union of a set of sets. \<open>Union_op sv tv s t\<close> is the run of \<open>Union(s, t)\<close> in which
  \<open>s.Values()\<close> delivers \<open>sv\<close> and \<open>t.Values()\<close> delivers \<open>tv\<close>. The argument \<open>s.Len()+t.Len()\<close> is evaluated before
  \<open>newSet\<close> is entered. A map holds far fewer than \<open>2^62\<close> keys, so the sum does not wrap.
\<close>

definition Union_op :: "elem list \<Rightarrow> elem list \<Rightarrow> iface \<Rightarrow> iface \<Rightarrow> iface prog" where
  "Union_op sv tv s t =
     bnd (Len s) (\<lambda>m.
     bnd (Len t) (\<lambda>n.
     bnd (newSet s t (m + n)) (\<lambda>r.
     bnd (Values sv s) (\<lambda>svals.
     bnd (Union_loop r svals) (\<lambda>_.
     bnd (Values tv t) (\<lambda>tvals.
     bnd (Union_loop r tvals) (\<lambda>_.
     ret r)))))))"

text \<open>The loop \<open>for v := range svals { if t.Contains(v) { r.Insert(v) } }\<close>.\<close>

fun Intersection_loop :: "iface \<Rightarrow> iface \<Rightarrow> elem list \<Rightarrow> unit prog" where
  "Intersection_loop t r [] = ret ()"
| "Intersection_loop t r (v # vs) =
     bnd (Contains t v) (\<lambda>b.
     bnd (if b then Insert r v else ret ()) (\<lambda>_.
     Intersection_loop t r vs))"

text \<open>
  \<open>Intersection sv s t\<close>: after \<open>if s.Len() < t.Len() { t, s = s, t }\<close> the operand called
  \<open>s\<close> is iterated, with \<open>sv\<close> the values it delivers, and the one called \<open>t\<close> is probed.
\<close>

definition Intersection :: "elem list \<Rightarrow> iface \<Rightarrow> iface \<Rightarrow> iface prog" where
  "Intersection sv s t =
     bnd (newSet s t 0) (\<lambda>r.
     bnd (Len s) (\<lambda>m.
     bnd (Len t) (\<lambda>n.
     (let s' = (if m < n then t else s); t' = (if m < n then s else t) in
      bnd (Values sv s') (\<lambda>svals.
      bnd (Intersection_loop t' r svals) (\<lambda>_.
      ret r))))))"

text \<open>The loop \<open>for v := range svals { if !t.Contains(v) { r.Insert(v) } }\<close>.\<close>

fun Difference_loop :: "iface \<Rightarrow> iface \<Rightarrow> elem list \<Rightarrow> unit prog" where
  "Difference_loop t r [] = ret ()"
| "Difference_loop t r (v # vs) =
     bnd (Contains t v) (\<lambda>b.
     bnd (if \<not> b then Insert r v else ret ()) (\<lambda>_.
     Difference_loop t r vs))"

definition Difference :: "elem list \<Rightarrow> iface \<Rightarrow> iface \<Rightarrow> iface prog" where
  "Difference sv s t =
     bnd (newSet s t 0) (\<lambda>r.
     bnd (Values sv s) (\<lambda>svals.
     bnd (Difference_loop t r svals) (\<lambda>_.
     ret r)))"

text \<open>
  \<open>SymmetricDifference\<close> has the loop of \<open>Difference\<close> twice, the second time with the
  operands exchanged.
\<close>

definition SymmetricDifference ::
    "elem list \<Rightarrow> elem list \<Rightarrow> iface \<Rightarrow> iface \<Rightarrow> iface prog" where
  "SymmetricDifference sv tv s t =
     bnd (newSet s t 0) (\<lambda>r.
     bnd (Values sv s) (\<lambda>svals.
     bnd (Difference_loop t r svals) (\<lambda>_.
     bnd (Values tv t) (\<lambda>tvals.
     bnd (Difference_loop s r tvals) (\<lambda>_.
     ret r)))))"

section \<open>Observations\<close>

text \<open>
  The variants the source declares, the elements a variant accepts (the type assertion of
  its methods succeeds on them), and the elements a set holds in a state.
\<close>

fun native :: "iface \<Rightarrow> bool" where
  "native (StringSetV r) = True"
| "native (IntSetV r) = True"
| "native s = False"

fun fits :: "iface \<Rightarrow> elem \<Rightarrow> bool" where
  "fits (StringSetV r) (EString k) = True"
| "fits (IntSetV r) (EInt k) = True"
| "fits s v = False"

fun elems :: "state \<Rightarrow> iface \<Rightarrow> elem set" where
  "elems st (StringSetV r) = EString ` dom (str_map st r)"
| "elems st (IntSetV r) = EInt ` dom (int_map st r)"
| "elems st s = {}"

text \<open>
  A value of the program refers to a table that has been allocated, and a table holds
  finitely many keys.
\<close>

fun allocated :: "state \<Rightarrow> iface \<Rightarrow> bool" where
  "allocated st (StringSetV (Some a)) = (a < nxt st)"
| "allocated st (IntSetV (Some a)) = (a < nxt st)"
| "allocated st s = True"

definition valid :: "state \<Rightarrow> iface \<Rightarrow> bool" where
  "valid st s \<longleftrightarrow> allocated st s \<and> finite (elems st s)"

text \<open>\<open>vs\<close> is an order in which \<open>s.Values()\<close> may deliver in state \<open>st\<close>.\<close>

definition delivers :: "state \<Rightarrow> iface \<Rightarrow> elem list \<Rightarrow> bool" where
  "delivers st s vs \<longleftrightarrow> distinct vs \<and> set vs = elems st s"

text \<open>The value a call returns, if it returns.\<close>

definition answer :: "'a prog \<Rightarrow> state \<Rightarrow> 'a option" where
  "answer m st = (case m st of Inl e \<Rightarrow> None | Inr (x, st') \<Rightarrow> Some x)"

text \<open>The operands on which \<open>Values\<close> was called, in order.\<close>

fun passes :: "call list \<Rightarrow> iface list" where
  "passes [] = []"
| "passes (CValues s # cs) = s # passes cs"
| "passes (c # cs) = passes cs"

text \<open>The calls of \<open>Contains\<close> made on the operand \<open>s\<close>.\<close>

fun probes :: "iface \<Rightarrow> call list \<Rightarrow> elem list" where
  "probes s [] = []"
| "probes s (CContains u v # cs) = (if u = s then v # probes s cs else probes s cs)"
| "probes s (c # cs) = probes s cs"

text \<open>
  Every table other than the one \<open>r\<close> refers to is the same in \<open>st'\<close> as in \<open>st\<close>.
\<close>

definition frame :: "iface \<Rightarrow> state \<Rightarrow> state \<Rightarrow> bool" where
  "frame r st st' \<longleftrightarrow>
     (\<forall>b. r \<noteq> StringSetV (Some b) \<longrightarrow> strs st' b = strs st b) \<and>
     (\<forall>b. r \<noteq> IntSetV (Some b) \<longrightarrow> ints st' b = ints st b)"

text \<open>
  The operand that \<open>Intersection\<close> iterates and the one it probes: after
  \<open>if s.Len() < t.Len() { t, s = s, t }\<close> the name \<open>s\<close> is bound to the iterated operand
  and \<open>t\<close> to the probed one.
\<close>

definition Intersection_iterated :: "state \<Rightarrow> iface \<Rightarrow> iface \<Rightarrow> iface" where
  "Intersection_iterated st s t = (if card (elems st s) < card (elems st t) then t else s)"

definition Intersection_probed :: "state \<Rightarrow> iface \<Rightarrow> iface \<Rightarrow> iface" where
  "Intersection_probed st s t = (if card (elems st s) < card (elems st t) then s else t)"


text \<open>
  The sets of the test of the package, \<open>{a, b, c}\<close> at address 0 and \<open>{b, c, d}\<close> at
  address 1, with a set of integers at address 2.
\<close>

definition test_state :: state where
  "test_state =
     \<lparr>strs = (\<lambda>a. Map.empty)
        (0 := [''a'' \<mapsto> True, ''b'' \<mapsto> True, ''c'' \<mapsto> True],
         1 := [''b'' \<mapsto> True, ''c'' \<mapsto> True, ''d'' \<mapsto> True]),
      ints = (\<lambda>a. Map.empty)(2 := [1 \<mapsto> True]),
      nxt = 3, calls = []\<rparr>"

definition test_a :: iface where
  "test_a = StringSetV (Some 0)"

definition test_b :: iface where
  "test_b = StringSetV (Some 1)"

definition test_n :: iface where
  "test_n = IntSetV (Some 2)"

text \<open>
  Two sets answer alike: \<open>Len\<close> and every call of \<open>Contains\<close> return the same on \<open>r\<close> in
  state \<open>st\<close> as on \<open>r'\<close> in state \<open>st'\<close>.
\<close>

definition agree :: "iface \<Rightarrow> state \<Rightarrow> iface \<Rightarrow> state \<Rightarrow> bool" where
  "agree r st r' st' \<longleftrightarrow>
     answer (Len r) st = answer (Len r') st' \<and>
     (\<forall>e. answer (Contains r e) st = answer (Contains r' e) st')"


text \<open>A set of one element at address 0 and a set of two at address 1.\<close>

definition small_state :: state where
  "small_state =
     \<lparr>strs = (\<lambda>a. Map.empty)
        (0 := [''a'' \<mapsto> True],
         1 := [''a'' \<mapsto> True, ''b'' \<mapsto> True]),
      ints = (\<lambda>a. Map.empty),
      nxt = 2, calls = []\<rparr>"

section \<open>The methods and loops on the variants of the source\<close>


lemma passes_append: "passes (cs @ ds) = passes cs @ passes ds"
  by (induction cs rule: passes.induct) auto

lemma frame_refl: "frame r st st"
  by (simp add: frame_def)

lemma frame_trans: "frame r st st1 \<Longrightarrow> frame r st1 st2 \<Longrightarrow> frame r st st2"
  by (simp add: frame_def)

lemma frame_elems: "frame r st st' \<Longrightarrow> u \<noteq> r \<Longrightarrow> elems st' u = elems st u"
  by (cases u) (auto simp: frame_def str_map_def int_map_def split: option.splits)

lemma Insert_native:
  assumes "r = StringSetV (Some a) \<or> r = IntSetV (Some a)" "fits r v"
  shows "\<exists>st'. Insert r v st = Inr ((), st') \<and> elems st' r = insert v (elems st r)
     \<and> frame r st st' \<and> nxt st' = nxt st \<and> calls st' = calls st @ [CInsert r v]"
  using assms
  by (cases v) (auto simp: Insert_def bnd_def record_call_def StringSet_Insert_def IntSet_Insert_def
      frame_def str_map_def int_map_def)

lemma Contains_native:
  assumes "native t" "fits t v"
  shows "Contains t v st = Inr (v \<in> elems st t, st\<lparr>calls := calls st @ [CContains t v]\<rparr>)"
  using assms
  by (cases t; cases v) (auto simp: Contains_def bnd_def record_call_def StringSet_Contains_def IntSet_Contains_def
      str_map_def int_map_def split: option.splits)

lemma Len_native:
  assumes "native s"
  shows "Len s st = Inr (int (card (elems st s)), st\<lparr>calls := calls st @ [CLen s]\<rparr>)"
  using assms
  by (cases s) (auto simp: Len_def bnd_def record_call_def StringSet_Len_def IntSet_Len_def
      str_map_def int_map_def card_image inj_on_def split: option.splits)

lemma Values_native:
  assumes "native s"
  shows "Values vs s st = (if delivers st s vs then Inr (vs, st\<lparr>calls := calls st @ [CValues s]\<rparr>)
      else Inl (NoSuchRun, st\<lparr>calls := calls st @ [CValues s]\<rparr>))"
  using assms
  by (cases s) (auto simp: Values_def bnd_def record_call_def StringSet_Values_def IntSet_Values_def
      delivers_def str_map_def int_map_def split: option.splits)


lemma probes_append: "probes u (cs @ ds) = probes u cs @ probes u ds"
  by (induction u cs rule: probes.induct) auto

lemma Union_loop_native:
  assumes "r = StringSetV (Some a) \<or> r = IntSetV (Some a)" "\<forall>v\<in>set vs. fits r v"
  shows "\<exists>st'. Union_loop r vs st = Inr ((), st') \<and> elems st' r = elems st r \<union> set vs
     \<and> frame r st st' \<and> nxt st' = nxt st \<and> passes (calls st') = passes (calls st)
     \<and> probes u (calls st') = probes u (calls st)"
  using assms(2)
proof (induction vs arbitrary: st)
  case Nil
  then show ?case by (simp add: ret_def frame_refl)
next
  case (Cons v vs)
  from Cons.prems have fv: "fits r v" and rest: "\<forall>v\<in>set vs. fits r v" by simp_all
  from Insert_native [OF assms(1) fv, of st] obtain st1 where
    i: "Insert r v st = Inr ((), st1)" and e1: "elems st1 r = insert v (elems st r)"
    and f1: "frame r st st1" and n1: "nxt st1 = nxt st"
    and c1: "calls st1 = calls st @ [CInsert r v]" by blast
  from Cons.IH [OF rest, of st1] obtain st2 where
    l: "Union_loop r vs st1 = Inr ((), st2)" and e2: "elems st2 r = elems st1 r \<union> set vs"
    and f2: "frame r st1 st2" and n2: "nxt st2 = nxt st1"
    and p2: "passes (calls st2) = passes (calls st1)"
    and q2: "probes u (calls st2) = probes u (calls st1)" by blast
  have "Union_loop r (v # vs) st = Inr ((), st2)"
    using i l by (simp add: bnd_def)
  moreover have "elems st2 r = elems st r \<union> set (v # vs)"
    using e1 e2 by auto
  moreover have "frame r st st2" using f1 f2 by (rule frame_trans)
  moreover have "passes (calls st2) = passes (calls st)"
    using p2 c1 by (simp add: passes_append)
  moreover have "probes u (calls st2) = probes u (calls st)"
    using q2 c1 by (simp add: probes_append)
  ultimately show ?case using n1 n2 by simp
qed

lemma Difference_loop_native:
  assumes "r = StringSetV (Some a) \<or> r = IntSetV (Some a)" "native t" "t \<noteq> r"
    "\<forall>v\<in>set vs. fits r v \<and> fits t v"
  shows "\<exists>st'. Difference_loop t r vs st = Inr ((), st')
     \<and> elems st' r = elems st r \<union> {v \<in> set vs. v \<notin> elems st t}
     \<and> frame r st st' \<and> nxt st' = nxt st \<and> passes (calls st') = passes (calls st)
     \<and> probes t (calls st') = probes t (calls st) @ vs"
  using assms(4)
proof (induction vs arbitrary: st)
  case Nil
  then show ?case by (simp add: ret_def frame_refl)
next
  case (Cons v vs)
  from Cons.prems have fv: "fits r v" and ft: "fits t v"
    and rest: "\<forall>v\<in>set vs. fits r v \<and> fits t v" by simp_all
  let ?st0 = "st\<lparr>calls := calls st @ [CContains t v]\<rparr>"
  have c: "Contains t v st = Inr (v \<in> elems st t, ?st0)"
    using assms(2) ft by (rule Contains_native)
  have e0: "elems ?st0 u = elems st u" for u
    by (cases u) (simp_all add: str_map_def int_map_def split: option.splits)
  have f0: "frame r st ?st0" by (simp add: frame_def)
  obtain st1 where
    i: "(if v \<notin> elems st t then Insert r v else ret ()) ?st0 = Inr ((), st1)"
    and e1: "elems st1 r = elems st r \<union> (if v \<notin> elems st t then {v} else {})"
    and f1: "frame r st st1" and n1: "nxt st1 = nxt st"
    and p1: "passes (calls st1) = passes (calls st)"
    and q1: "probes t (calls st1) = probes t (calls st) @ [v]"
  proof (cases "v \<in> elems st t")
    case True
    show ?thesis
      by (rule that [of ?st0]) (use True e0 f0 in \<open>simp_all add: ret_def passes_append probes_append\<close>)
  next
    case False
    from Insert_native [OF assms(1) fv, of ?st0] obtain st1 where
      "Insert r v ?st0 = Inr ((), st1)" "elems st1 r = insert v (elems ?st0 r)"
      "frame r ?st0 st1" "nxt st1 = nxt ?st0" "calls st1 = calls ?st0 @ [CInsert r v]" by blast
    then show ?thesis
      using False e0 f0 assms(3)
      by (intro that [of st1]) (auto simp: passes_append probes_append intro: frame_trans)
  qed
  have et: "elems st1 t = elems st t" using f1 assms(3) by (rule frame_elems)
  from Cons.IH [OF rest, of st1] obtain st2 where
    l: "Difference_loop t r vs st1 = Inr ((), st2)"
    and e2: "elems st2 r = elems st1 r \<union> {v \<in> set vs. v \<notin> elems st1 t}"
    and f2: "frame r st1 st2" and n2: "nxt st2 = nxt st1"
    and p2: "passes (calls st2) = passes (calls st1)"
    and q2: "probes t (calls st2) = probes t (calls st1) @ vs" by blast
  have "Difference_loop t r (v # vs) st = Inr ((), st2)"
    using c i l by (simp add: bnd_def)
  moreover have "elems st2 r = elems st r \<union> {x \<in> set (v # vs). x \<notin> elems st t}"
    using e1 e2 et by auto
  moreover have "frame r st st2" using f1 f2 by (rule frame_trans)
  ultimately show ?case using n1 n2 p1 p2 q1 q2 by simp
qed


lemma Intersection_loop_native:
  assumes "r = StringSetV (Some a) \<or> r = IntSetV (Some a)" "native t" "t \<noteq> r"
    "\<forall>v\<in>set vs. fits r v \<and> fits t v"
  shows "\<exists>st'. Intersection_loop t r vs st = Inr ((), st')
     \<and> elems st' r = elems st r \<union> {v \<in> set vs. v \<in> elems st t}
     \<and> frame r st st' \<and> nxt st' = nxt st \<and> passes (calls st') = passes (calls st)
     \<and> probes t (calls st') = probes t (calls st) @ vs
     \<and> (\<forall>u. u \<noteq> t \<longrightarrow> probes u (calls st') = probes u (calls st))"
  using assms(4)
proof (induction vs arbitrary: st)
  case Nil
  then show ?case by (simp add: ret_def frame_refl)
next
  case (Cons v vs)
  from Cons.prems have fv: "fits r v" and ft: "fits t v"
    and rest: "\<forall>v\<in>set vs. fits r v \<and> fits t v" by simp_all
  let ?st0 = "st\<lparr>calls := calls st @ [CContains t v]\<rparr>"
  have c: "Contains t v st = Inr (v \<in> elems st t, ?st0)"
    using assms(2) ft by (rule Contains_native)
  have e0: "elems ?st0 u = elems st u" for u
    by (cases u) (simp_all add: str_map_def int_map_def split: option.splits)
  have f0: "frame r st ?st0" by (simp add: frame_def)
  obtain st1 where
    i: "(if v \<in> elems st t then Insert r v else ret ()) ?st0 = Inr ((), st1)"
    and e1: "elems st1 r = elems st r \<union> (if v \<in> elems st t then {v} else {})"
    and f1: "frame r st st1" and n1: "nxt st1 = nxt st"
    and p1: "passes (calls st1) = passes (calls st)"
    and q1: "probes t (calls st1) = probes t (calls st) @ [v]"
    and o1: "\<forall>u. u \<noteq> t \<longrightarrow> probes u (calls st1) = probes u (calls st)"
  proof (cases "v \<in> elems st t")
    case False
    show ?thesis
      by (rule that [of ?st0]) (use False e0 f0 in \<open>simp_all add: ret_def passes_append probes_append\<close>)
  next
    case True
    from Insert_native [OF assms(1) fv, of ?st0] obtain st1 where
      "Insert r v ?st0 = Inr ((), st1)" "elems st1 r = insert v (elems ?st0 r)"
      "frame r ?st0 st1" "nxt st1 = nxt ?st0" "calls st1 = calls ?st0 @ [CInsert r v]" by blast
    then show ?thesis
      using True e0 f0 assms(3)
      by (intro that [of st1]) (auto simp: passes_append probes_append intro: frame_trans)
  qed
  have et: "elems st1 t = elems st t" using f1 assms(3) by (rule frame_elems)
  from Cons.IH [OF rest, of st1] obtain st2 where
    l: "Intersection_loop t r vs st1 = Inr ((), st2)"
    and e2: "elems st2 r = elems st1 r \<union> {v \<in> set vs. v \<in> elems st1 t}"
    and f2: "frame r st1 st2" and n2: "nxt st2 = nxt st1"
    and p2: "passes (calls st2) = passes (calls st1)"
    and q2: "probes t (calls st2) = probes t (calls st1) @ vs"
    and o2: "\<forall>u. u \<noteq> t \<longrightarrow> probes u (calls st2) = probes u (calls st1)" by blast
  have "Intersection_loop t r (v # vs) st = Inr ((), st2)"
    using c i l by (simp add: bnd_def)
  moreover have "elems st2 r = elems st r \<union> {x \<in> set (v # vs). x \<in> elems st t}"
    using e1 e2 et by auto
  moreover have "frame r st st2" using f1 f2 by (rule frame_trans)
  moreover have "\<forall>u. u \<noteq> t \<longrightarrow> probes u (calls st2) = probes u (calls st)"
    using o1 o2 by simp
  ultimately show ?case using n1 n2 p1 p2 q1 q2 by simp
qed

lemma native_same_type: "native s \<Longrightarrow> TypeOf s = TypeOf t \<Longrightarrow> native t"
  by (cases s; cases t) simp_all

lemma fits_same_type: "TypeOf r = TypeOf s \<Longrightarrow> fits r v = fits s v"
  by (cases r; cases s; cases v) simp_all

lemma elems_fits: "v \<in> elems st s \<Longrightarrow> fits s v"
  by (cases s) auto

lemma newSet_native:
  assumes "native s" "TypeOf s = TypeOf t"
  shows "\<exists>r st'. newSet s t c st = Inr (r, st')
     \<and> (r = StringSetV (Some (nxt st)) \<or> r = IntSetV (Some (nxt st)))
     \<and> TypeOf r = TypeOf s \<and> elems st' r = {} \<and> frame r st st'
     \<and> nxt st' = Suc (nxt st) \<and> calls st' = calls st"
  using assms
  by (cases s; cases t) (auto simp: newSet_def frame_def str_map_def int_map_def)

lemma fresh_not_operand:
  assumes "r = StringSetV (Some (nxt st)) \<or> r = IntSetV (Some (nxt st))" "valid st s"
  shows "s \<noteq> r"
  using assms by (auto simp: valid_def)

lemma elems_calls [simp]: "elems (st\<lparr>calls := cs\<rparr>) u = elems st u"
  by (cases u) (simp_all add: str_map_def int_map_def split: option.splits)

lemma delivers_calls [simp]: "delivers (st\<lparr>calls := cs\<rparr>) u vs = delivers st u vs"
  by (simp add: delivers_def)

lemma frame_calls [simp]: "frame r (st\<lparr>calls := cs\<rparr>) st' = frame r st st'"
  by (simp add: frame_def)

lemma delivers_frame: "frame r st st' \<Longrightarrow> u \<noteq> r \<Longrightarrow> delivers st' u vs = delivers st u vs"
  by (simp add: delivers_def frame_elems)

lemma Union_run:
  assumes ns: "native s" and ty: "TypeOf s = TypeOf t"
    and vs: "valid st s" and vt: "valid st t"
    and ds: "delivers st s sv" and dt: "delivers st t tv"
  shows "\<exists>r st'. Union_op sv tv s t st = Inr (r, st') 
     \<and> (r = StringSetV (Some (nxt st)) \<or> r = IntSetV (Some (nxt st)))
     \<and> TypeOf r = TypeOf s \<and> elems st' r = elems st s \<union> elems st t \<and> frame r st st'
     \<and> passes (calls st') = passes (calls st) @ [s, t] \<and> nxt st' = Suc (nxt st)"
proof -
  have nt: "native t" using ns ty by (rule native_same_type)
  let ?st1 = "st\<lparr>calls := calls st @ [CLen s]\<rparr>"
  let ?st2 = "?st1\<lparr>calls := calls ?st1 @ [CLen t]\<rparr>"
  let ?c = "int (card (elems st s)) + int (card (elems st t))"
  from newSet_native [OF ns ty, of ?c ?st2] obtain r st3 where
    n: "newSet s t ?c ?st2 = Inr (r, st3)"
    and rr: "r = StringSetV (Some (nxt st)) \<or> r = IntSetV (Some (nxt st))"
    and tr: "TypeOf r = TypeOf s" and e3: "elems st3 r = {}" and f3: "frame r st st3"
    and n3: "nxt st3 = Suc (nxt st)" and c3: "calls st3 = calls ?st2" by auto
  have sr: "s \<noteq> r" using rr vs by (rule fresh_not_operand)
  have tr': "t \<noteq> r" using rr vt by (rule fresh_not_operand)
  let ?st4 = "st3\<lparr>calls := calls st3 @ [CValues s]\<rparr>"
  have v4: "Values sv s st3 = Inr (sv, ?st4)"
    using ds delivers_frame [OF f3 sr] by (simp add: Values_native [OF ns])
  have fs: "\<forall>v\<in>set sv. fits r v"
    using ds elems_fits [of _ st s] fits_same_type [OF tr] by (auto simp: delivers_def)
  from Union_loop_native [OF rr fs, of ?st4] obtain st5 where
    l5: "Union_loop r sv ?st4 = Inr ((), st5)" and e5: "elems st5 r = elems ?st4 r \<union> set sv"
    and f5: "frame r ?st4 st5" and p5: "passes (calls st5) = passes (calls ?st4)"
    and n5: "nxt st5 = nxt ?st4" by blast
  have f05: "frame r st st5" using f3 f5 by (auto intro: frame_trans)
  let ?st6 = "st5\<lparr>calls := calls st5 @ [CValues t]\<rparr>"
  have v6: "Values tv t st5 = Inr (tv, ?st6)"
    using dt delivers_frame [OF f05 tr'] by (simp add: Values_native [OF nt])
  have ft: "\<forall>v\<in>set tv. fits r v"
    using dt elems_fits [of _ st t] fits_same_type [of r t] tr ty by (auto simp: delivers_def)
  from Union_loop_native [OF rr ft, of ?st6] obtain st7 where
    l7: "Union_loop r tv ?st6 = Inr ((), st7)" and e7: "elems st7 r = elems ?st6 r \<union> set tv"
    and f7: "frame r ?st6 st7" and p7: "passes (calls st7) = passes (calls ?st6)"
    and n7: "nxt st7 = nxt ?st6" by blast
  have "Union_op sv tv s t st = Inr (r, st7)"
    using n v4 l5 v6 l7
    by (simp add: Union_op_def bnd_def Len_native [OF ns] Len_native [OF nt] ret_def)
  moreover have "elems st7 r = elems st s \<union> elems st t"
    using e7 e5 e3 ds dt by (simp add: delivers_def)
  moreover have "frame r st st7" using f05 f7 by (auto intro: frame_trans)
  moreover have "passes (calls st7) = passes (calls st) @ [s, t]"
    using p7 p5 c3 by (simp add: passes_append)
  moreover have "nxt st7 = Suc (nxt st)" using n7 n5 n3 by simp
  ultimately show ?thesis using rr tr by blast
qed


lemma Intersection_pass:
  assumes rr: "r = StringSetV (Some a) \<or> r = IntSetV (Some a)"
    and ni: "native i" and np: "native p" and ir: "i \<noteq> r" and pr: "p \<noteq> r"
    and ti: "TypeOf i = TypeOf r" and tp: "TypeOf p = TypeOf r"
    and ds: "delivers st i sv"
  shows "\<exists>st'. bnd (Values sv i) (\<lambda>svals. bnd (Intersection_loop p r svals) (\<lambda>_. ret r)) st
        = Inr (r, st')
     \<and> elems st' r = elems st r \<union> (elems st i \<inter> elems st p) \<and> frame r st st'
     \<and> passes (calls st') = passes (calls st) @ [i]
     \<and> probes p (calls st') = probes p (calls st) @ sv \<and> nxt st' = nxt st
     \<and> (\<forall>u. u \<noteq> p \<longrightarrow> probes u (calls st') = probes u (calls st))"
proof -
  let ?st1 = "st\<lparr>calls := calls st @ [CValues i]\<rparr>"
  have v1: "Values sv i st = Inr (sv, ?st1)"
    using ds by (simp add: Values_native [OF ni])
  have "fits r v \<and> fits p v" if "v \<in> set sv" for v
  proof -
    from that ds have "fits i v" by (simp add: delivers_def elems_fits)
    then show ?thesis using fits_same_type [OF ti, of v] fits_same_type [OF tp, of v]
      fits_same_type [OF ti, of v] by simp
  qed
  then have fs: "\<forall>v\<in>set sv. fits r v \<and> fits p v" by blast
  from Intersection_loop_native [OF rr np pr fs, of ?st1] obtain st2 where
    l2: "Intersection_loop p r sv ?st1 = Inr ((), st2)"
    and e2: "elems st2 r = elems ?st1 r \<union> {v \<in> set sv. v \<in> elems ?st1 p}"
    and f2: "frame r ?st1 st2" and p2: "passes (calls st2) = passes (calls ?st1)"
    and q2: "probes p (calls st2) = probes p (calls ?st1) @ sv"
    and n2: "nxt st2 = nxt ?st1"
    and o2: "\<forall>u. u \<noteq> p \<longrightarrow> probes u (calls st2) = probes u (calls ?st1)" by blast
  have "bnd (Values sv i) (\<lambda>svals. bnd (Intersection_loop p r svals) (\<lambda>_. ret r)) st
        = Inr (r, st2)"
    using v1 l2 by (simp add: bnd_def ret_def)
  moreover have "elems st2 r = elems st r \<union> (elems st i \<inter> elems st p)"
  proof -
    have "set sv = elems st i" using ds by (simp add: delivers_def)
    with e2 show ?thesis by auto
  qed
  moreover have "frame r st st2" using f2 by simp
  moreover have "passes (calls st2) = passes (calls st) @ [i]"
    using p2 by (simp add: passes_append)
  moreover have "probes p (calls st2) = probes p (calls st) @ sv"
    using q2 by (simp add: probes_append)
  moreover have "nxt st2 = nxt st" using n2 by simp
  moreover have "\<forall>u. u \<noteq> p \<longrightarrow> probes u (calls st2) = probes u (calls st)"
    using o2 by (simp add: probes_append)
  ultimately show ?thesis by blast
qed


lemma Intersection_run:
  assumes ns: "native s" and ty: "TypeOf s = TypeOf t"
    and vs: "valid st s" and vt: "valid st t"
    and ds: "delivers st (Intersection_iterated st s t) sv"
  shows "\<exists>r st'. Intersection sv s t st = Inr (r, st') 
     \<and> (r = StringSetV (Some (nxt st)) \<or> r = IntSetV (Some (nxt st)))
     \<and> TypeOf r = TypeOf s \<and> elems st' r = elems st s \<inter> elems st t \<and> frame r st st'
     \<and> passes (calls st') = passes (calls st) @ [Intersection_iterated st s t]
     \<and> probes (Intersection_probed st s t) (calls st') =
         probes (Intersection_probed st s t) (calls st) @ sv
     \<and> nxt st' = Suc (nxt st)
     \<and> (\<forall>u. u \<noteq> Intersection_probed st s t \<longrightarrow>
           probes u (calls st') = probes u (calls st))"
proof -
  have nt: "native t" using ns ty by (rule native_same_type)
  from newSet_native [OF ns ty, of 0 st] obtain r st1 where
    n: "newSet s t 0 st = Inr (r, st1)"
    and rr: "r = StringSetV (Some (nxt st)) \<or> r = IntSetV (Some (nxt st))"
    and tr: "TypeOf r = TypeOf s" and e1: "elems st1 r = {}" and f1: "frame r st st1"
    and c1: "calls st1 = calls st" and n1: "nxt st1 = Suc (nxt st)" by auto
  have sr: "s \<noteq> r" using rr vs by (rule fresh_not_operand)
  have tr': "t \<noteq> r" using rr vt by (rule fresh_not_operand)
  have es: "elems st1 s = elems st s" using f1 sr by (rule frame_elems)
  have et: "elems st1 t = elems st t" using f1 tr' by (rule frame_elems)
  have tt: "TypeOf t = TypeOf r" using tr ty by simp
  have ts: "TypeOf s = TypeOf r" using tr by simp
  let ?st3 = "st1\<lparr>calls := calls st1 @ [CLen s, CLen t]\<rparr>"
  have f3: "frame r st ?st3" using f1 by (simp add: frame_def)
  have start: "Intersection sv s t st =
      bnd (Values sv (if card (elems st s) < card (elems st t) then t else s))
        (\<lambda>svals. bnd (Intersection_loop
           (if card (elems st s) < card (elems st t) then s else t) r svals) (\<lambda>_. ret r)) ?st3"
    using n by (simp add: Intersection_def bnd_def Len_native [OF ns] Len_native [OF nt] es et)
  show ?thesis
  proof (cases "card (elems st s) < card (elems st t)")
    case True
    then have i: "Intersection_iterated st s t = t" and p: "Intersection_probed st s t = s"
      by (simp_all add: Intersection_iterated_def Intersection_probed_def)
    have d3: "delivers ?st3 t sv" using ds i delivers_frame [OF f3 tr'] by simp
    from Intersection_pass [OF rr nt ns tr' sr tt ts d3] obtain st5 where
      run: "bnd (Values sv t) (\<lambda>svals. bnd (Intersection_loop s r svals) (\<lambda>_. ret r)) ?st3
          = Inr (r, st5)"
      and e5: "elems st5 r = elems ?st3 r \<union> (elems ?st3 t \<inter> elems ?st3 s)"
      and f5: "frame r ?st3 st5"
      and p5: "passes (calls st5) = passes (calls ?st3) @ [t]"
      and q5: "probes s (calls st5) = probes s (calls ?st3) @ sv"
      and n5: "nxt st5 = nxt ?st3"
      and o5: "\<forall>u. u \<noteq> s \<longrightarrow> probes u (calls st5) = probes u (calls ?st3)" by blast
    have "Intersection sv s t st = Inr (r, st5)" using start run True by simp
    moreover have "elems st5 r = elems st s \<inter> elems st t"
      using e5 e1 es et by auto
    moreover have "frame r st st5" using f3 f5 by (rule frame_trans)
    moreover have "passes (calls st5) = passes (calls st) @ [t]"
      using p5 c1 by (simp add: passes_append)
    moreover have "probes s (calls st5) = probes s (calls st) @ sv"
      using q5 c1 by (simp add: probes_append)
    moreover have "nxt st5 = Suc (nxt st)" using n5 n1 by simp
    moreover have "\<forall>u. u \<noteq> Intersection_probed st s t \<longrightarrow>
        probes u (calls st5) = probes u (calls st)"
      using o5 c1 p by (simp add: probes_append)
    ultimately show ?thesis using rr tr i p by auto
  next
    case False
    then have i: "Intersection_iterated st s t = s" and p: "Intersection_probed st s t = t"
      by (simp_all add: Intersection_iterated_def Intersection_probed_def)
    have d3: "delivers ?st3 s sv" using ds i delivers_frame [OF f3 sr] by simp
    from Intersection_pass [OF rr ns nt sr tr' ts tt d3] obtain st5 where
      run: "bnd (Values sv s) (\<lambda>svals. bnd (Intersection_loop t r svals) (\<lambda>_. ret r)) ?st3
          = Inr (r, st5)"
      and e5: "elems st5 r = elems ?st3 r \<union> (elems ?st3 s \<inter> elems ?st3 t)"
      and f5: "frame r ?st3 st5"
      and p5: "passes (calls st5) = passes (calls ?st3) @ [s]"
      and q5: "probes t (calls st5) = probes t (calls ?st3) @ sv"
      and n5: "nxt st5 = nxt ?st3"
      and o5: "\<forall>u. u \<noteq> t \<longrightarrow> probes u (calls st5) = probes u (calls ?st3)" by blast
    have "Intersection sv s t st = Inr (r, st5)" using start run False by simp
    moreover have "elems st5 r = elems st s \<inter> elems st t"
      using e5 e1 es et by auto
    moreover have "frame r st st5" using f3 f5 by (rule frame_trans)
    moreover have "passes (calls st5) = passes (calls st) @ [s]"
      using p5 c1 by (simp add: passes_append)
    moreover have "probes t (calls st5) = probes t (calls st) @ sv"
      using q5 c1 by (simp add: probes_append)
    moreover have "nxt st5 = Suc (nxt st)" using n5 n1 by simp
    moreover have "\<forall>u. u \<noteq> Intersection_probed st s t \<longrightarrow>
        probes u (calls st5) = probes u (calls st)"
      using o5 c1 p by (simp add: probes_append)
    ultimately show ?thesis using rr tr i p by auto
  qed
qed


lemma Difference_run:
  assumes ns: "native s" and ty: "TypeOf s = TypeOf t"
    and vs: "valid st s" and vt: "valid st t"
    and ds: "delivers st s sv"
  shows "\<exists>r st'. Difference sv s t st = Inr (r, st') 
     \<and> (r = StringSetV (Some (nxt st)) \<or> r = IntSetV (Some (nxt st)))
     \<and> TypeOf r = TypeOf s \<and> elems st' r = elems st s - elems st t \<and> frame r st st'
     \<and> passes (calls st') = passes (calls st) @ [s] \<and> nxt st' = Suc (nxt st)"
proof -
  have nt: "native t" using ns ty by (rule native_same_type)
  from newSet_native [OF ns ty, of 0 st] obtain r st1 where
    n: "newSet s t 0 st = Inr (r, st1)"
    and rr: "r = StringSetV (Some (nxt st)) \<or> r = IntSetV (Some (nxt st))"
    and tr: "TypeOf r = TypeOf s" and e1: "elems st1 r = {}" and f1: "frame r st st1"
    and c1: "calls st1 = calls st" and n1: "nxt st1 = Suc (nxt st)" by auto
  have sr: "s \<noteq> r" using rr vs by (rule fresh_not_operand)
  have tr': "t \<noteq> r" using rr vt by (rule fresh_not_operand)
  have et: "elems st1 t = elems st t" using f1 tr' by (rule frame_elems)
  let ?st2 = "st1\<lparr>calls := calls st1 @ [CValues s]\<rparr>"
  have v2: "Values sv s st1 = Inr (sv, ?st2)"
    using ds delivers_frame [OF f1 sr] by (simp add: Values_native [OF ns])
  have fs: "\<forall>v\<in>set sv. fits r v \<and> fits t v"
    using ds elems_fits [of _ st s] fits_same_type [of r s] fits_same_type [of t s] tr ty
    by (auto simp: delivers_def)
  from Difference_loop_native [OF rr nt tr' fs, of ?st2] obtain st3 where
    l3: "Difference_loop t r sv ?st2 = Inr ((), st3)"
    and e3: "elems st3 r = elems ?st2 r \<union> {v \<in> set sv. v \<notin> elems ?st2 t}"
    and f3: "frame r ?st2 st3" and p3: "passes (calls st3) = passes (calls ?st2)"
    and n3: "nxt st3 = nxt ?st2" by blast
  have "Difference sv s t st = Inr (r, st3)"
    using n v2 l3 by (simp add: Difference_def bnd_def ret_def)
  moreover have "elems st3 r = elems st s - elems st t"
    using e3 e1 et ds by (auto simp: delivers_def)
  moreover have "frame r st st3" using f1 f3 by (auto intro: frame_trans)
  moreover have "passes (calls st3) = passes (calls st) @ [s]"
    using p3 c1 by (simp add: passes_append)
  moreover have "nxt st3 = Suc (nxt st)" using n3 n1 by simp
  ultimately show ?thesis using rr tr by blast
qed

lemma SymmetricDifference_run:
  assumes ns: "native s" and ty: "TypeOf s = TypeOf t"
    and vs: "valid st s" and vt: "valid st t"
    and ds: "delivers st s sv" and dt: "delivers st t tv"
  shows "\<exists>r st'. SymmetricDifference sv tv s t st = Inr (r, st') 
     \<and> (r = StringSetV (Some (nxt st)) \<or> r = IntSetV (Some (nxt st)))
     \<and> TypeOf r = TypeOf s
     \<and> elems st' r = (elems st s - elems st t) \<union> (elems st t - elems st s)
     \<and> frame r st st' \<and> passes (calls st') = passes (calls st) @ [s, t]
     \<and> nxt st' = Suc (nxt st)"
proof -
  have nt: "native t" using ns ty by (rule native_same_type)
  from newSet_native [OF ns ty, of 0 st] obtain r st1 where
    n: "newSet s t 0 st = Inr (r, st1)"
    and rr: "r = StringSetV (Some (nxt st)) \<or> r = IntSetV (Some (nxt st))"
    and tr: "TypeOf r = TypeOf s" and e1: "elems st1 r = {}" and f1: "frame r st st1"
    and c1: "calls st1 = calls st" and n1: "nxt st1 = Suc (nxt st)" by auto
  have sr: "s \<noteq> r" using rr vs by (rule fresh_not_operand)
  have tr': "t \<noteq> r" using rr vt by (rule fresh_not_operand)
  have et: "elems st1 t = elems st t" using f1 tr' by (rule frame_elems)
  let ?st2 = "st1\<lparr>calls := calls st1 @ [CValues s]\<rparr>"
  have v2: "Values sv s st1 = Inr (sv, ?st2)"
    using ds delivers_frame [OF f1 sr] by (simp add: Values_native [OF ns])
  have fs: "\<forall>v\<in>set sv. fits r v \<and> fits t v"
    using ds elems_fits [of _ st s] fits_same_type [of r s] fits_same_type [of t s] tr ty
    by (auto simp: delivers_def)
  from Difference_loop_native [OF rr nt tr' fs, of ?st2] obtain st3 where
    l3: "Difference_loop t r sv ?st2 = Inr ((), st3)"
    and e3: "elems st3 r = elems ?st2 r \<union> {v \<in> set sv. v \<notin> elems ?st2 t}"
    and f3: "frame r ?st2 st3" and p3: "passes (calls st3) = passes (calls ?st2)"
    and n3: "nxt st3 = nxt ?st2" by blast
  have f03: "frame r st st3" using f1 f3 by (auto intro: frame_trans)
  have es3: "elems st3 s = elems st s" using f03 sr by (rule frame_elems)
  let ?st4 = "st3\<lparr>calls := calls st3 @ [CValues t]\<rparr>"
  have v4: "Values tv t st3 = Inr (tv, ?st4)"
    using dt delivers_frame [OF f03 tr'] by (simp add: Values_native [OF nt])
  have ft: "\<forall>v\<in>set tv. fits r v \<and> fits s v"
    using dt elems_fits [of _ st t] fits_same_type [of r t] fits_same_type [of s t] tr ty
    by (auto simp: delivers_def)
  from Difference_loop_native [OF rr ns sr ft, of ?st4] obtain st5 where
    l5: "Difference_loop s r tv ?st4 = Inr ((), st5)"
    and e5: "elems st5 r = elems ?st4 r \<union> {v \<in> set tv. v \<notin> elems ?st4 s}"
    and f5: "frame r ?st4 st5" and p5: "passes (calls st5) = passes (calls ?st4)"
    and n5: "nxt st5 = nxt ?st4" by blast
  have "SymmetricDifference sv tv s t st = Inr (r, st5)"
    using n v2 l3 v4 l5 by (simp add: SymmetricDifference_def bnd_def ret_def)
  moreover have "elems st5 r = (elems st s - elems st t) \<union> (elems st t - elems st s)"
    using e5 e3 e1 et es3 ds dt by (auto simp: delivers_def)
  moreover have "frame r st st5" using f03 f5 by (auto intro: frame_trans)
  moreover have "passes (calls st5) = passes (calls st) @ [s, t]"
    using p5 p3 c1 by (simp add: passes_append)
  moreover have "nxt st5 = Suc (nxt st)" using n5 n3 n1 by simp
  ultimately show ?thesis using rr tr by blast
qed

lemma answer_Len: "native s \<Longrightarrow> answer (Len s) st = Some (int (card (elems st s)))"
  by (simp add: answer_def Len_native)

lemma answer_Contains:
  "native s \<Longrightarrow> fits s e \<Longrightarrow> answer (Contains s e) st = Some (e \<in> elems st s)"
  by (simp add: answer_def Contains_native)

lemma answer_Contains_unfit: "\<not> fits s e \<Longrightarrow> answer (Contains s e) st = None"
  by (cases s; cases e)
    (simp_all add: answer_def Contains_def bnd_def record_call_def panic_def
      StringSet_Contains_def IntSet_Contains_def)

section \<open>The constructor\<close>



text \<open>
  C1. When the concrete types of the two operands differ, \<open>newSet\<close> panics with
  "Set types ... do not match" naming the two types, and so does each of the four
  operations, with no result. The state at the panic is the state of the call: no table
  was allocated or written and \<open>Insert\<close> was not called. \<open>Union\<close> has by then
  called \<open>Len\<close> on both operands, which is all it has done; this is stated for the
  variants of the source, whose \<open>Len\<close> is known.
\<close>

theorem mismatch_panics:
  assumes "TypeOf s \<noteq> TypeOf t"
  shows "newSet s t capacity st = Inl (TypesDoNotMatch (TypeOf s) (TypeOf t), st)
    \<and> Intersection sv s t st = Inl (TypesDoNotMatch (TypeOf s) (TypeOf t), st)
    \<and> Difference sv s t st = Inl (TypesDoNotMatch (TypeOf s) (TypeOf t), st)
    \<and> SymmetricDifference sv tv s t st = Inl (TypesDoNotMatch (TypeOf s) (TypeOf t), st)
    \<and> (native s \<and> native t \<longrightarrow>
         Union_op sv tv s t st =
           Inl (TypesDoNotMatch (TypeOf s) (TypeOf t), st\<lparr>calls := calls st @ [CLen s, CLen t]\<rparr>))"
proof -
  have n: "newSet s t c st' = Inl (TypesDoNotMatch (TypeOf s) (TypeOf t), st')" for c st'
    using assms by (simp add: newSet_def panic_def)
  show ?thesis
    by (simp add: n Intersection_def Difference_def SymmetricDifference_def Union_op_def bnd_def
        Len_native)
qed

theorem mismatch_panics_witness:
  "TypeOf test_a \<noteq> TypeOf test_n
   \<and> Intersection [] test_a test_n test_state
       = Inl (TypesDoNotMatch (Some StringSet) (Some IntSet), test_state)
   \<and> Union_op [] [] test_a test_n test_state
       = Inl (TypesDoNotMatch (Some StringSet) (Some IntSet),
           test_state\<lparr>calls := calls test_state @ [CLen test_a, CLen test_n]\<rparr>)"
  using mismatch_panics [of test_a test_n 0 test_state "[]" "[]"]
  by (simp add: test_a_def test_n_def)

lemma fresh_native:
  "r = StringSetV (Some (nxt st)) \<or> r = IntSetV (Some (nxt st)) \<Longrightarrow>
     native r \<and> \<not> allocated st r"
  by auto




lemma same_answers:
  assumes "native u" and "elems st' u = elems st u"
  shows "answer (Len u) st' = answer (Len u) st"
    and "answer (Contains u e) st' = answer (Contains u e) st"
proof -
  show "answer (Len u) st' = answer (Len u) st"
    using assms by (simp add: answer_Len)
  show "answer (Contains u e) st' = answer (Contains u e) st"
    using assms by (cases "fits u e") (simp_all add: answer_Contains answer_Contains_unfit)
qed

section \<open>The sets of the test\<close>

lemma test_native [simp]:
  "native test_a" "native test_b" "native test_n"
  "TypeOf test_a = Some StringSet" "TypeOf test_b = Some StringSet" "TypeOf test_n = Some IntSet"
  by (simp_all add: test_a_def test_b_def test_n_def)

lemma test_elems:
  "elems test_state test_a = {EString ''a'', EString ''b'', EString ''c''}"
  "elems test_state test_b = {EString ''b'', EString ''c'', EString ''d''}"
  "elems test_state test_n = {EInt 1}"
  by (auto simp: test_state_def test_a_def test_b_def test_n_def str_map_def int_map_def)

lemma test_valid:
  "valid test_state test_a" "valid test_state test_b" "valid test_state test_n"
  by (simp_all add: valid_def test_elems del: elems.simps)
    (simp_all add: test_state_def test_a_def test_b_def test_n_def)

lemma test_delivers:
  "delivers test_state test_a [EString ''a'', EString ''b'', EString ''c'']"
  "delivers test_state test_a [EString ''c'', EString ''a'', EString ''b'']"
  "delivers test_state test_b [EString ''b'', EString ''c'', EString ''d'']"
  "delivers test_state test_b [EString ''d'', EString ''c'', EString ''b'']"
  by (simp_all add: delivers_def test_elems del: elems.simps) auto

lemma test_iterated:
  "Intersection_iterated test_state test_a test_b = test_a"
  "Intersection_iterated test_state test_b test_a = test_b"
  by (simp_all add: Intersection_iterated_def test_elems del: elems.simps)

section \<open>The results of the operations\<close>












section \<open>The operand that \<open>Intersection\<close> iterates\<close>

lemma small_elems:
  "elems small_state test_a = {EString ''a''}"
  "elems small_state test_b = {EString ''a'', EString ''b''}"
  by (auto simp: small_state_def test_a_def test_b_def str_map_def)

lemma small_valid: "valid small_state test_a" "valid small_state test_b"
  by (simp_all add: valid_def small_elems del: elems.simps)
    (simp_all add: small_state_def test_a_def test_b_def)

lemma small_roles:
  "Intersection_iterated small_state test_a test_b = test_b"
  "Intersection_probed small_state test_a test_b = test_a"
  by (simp_all add: Intersection_iterated_def Intersection_probed_def small_elems
      del: elems.simps)

text \<open>
  C5. \<open>Intersection\<close> is meant to iterate the operand with the smaller \<open>Len\<close> and to
  probe the larger one, once for each element of the smaller. It does the opposite. On \<open>s = {a}\<close> and \<open>t = {a, b}\<close> the test \<open>s.Len() < t.Len()\<close>
  holds and the swap makes \<open>t\<close>, the larger set, the iterated operand: \<open>Values\<close> is called
  on \<open>t\<close>, \<open>Contains\<close> is called twice on \<open>s\<close>, the smaller set, and never on \<open>t\<close>.
\<close>

theorem Intersection_iterates_larger:
  "answer (Len test_a) small_state = Some 1 \<and> answer (Len test_b) small_state = Some 2
   \<and> (\<exists>r st'. Intersection [EString ''a'', EString ''b''] test_a test_b small_state
          = Inr (r, st')
        \<and> passes (calls st') = [test_b]
        \<and> probes test_a (calls st') = [EString ''a'', EString ''b'']
        \<and> probes test_b (calls st') = [])"
proof -
  have l: "answer (Len test_a) small_state = Some 1" "answer (Len test_b) small_state = Some 2"
    by (simp_all add: answer_Len small_elems del: elems.simps)
  have d: "delivers small_state (Intersection_iterated small_state test_a test_b)
      [EString ''a'', EString ''b'']"
    by (simp add: small_roles delivers_def small_elems del: elems.simps)
  have c: "calls small_state = []" by (simp add: small_state_def)
  have ne: "test_b \<noteq> test_a" by (simp add: test_a_def test_b_def)
  from Intersection_run [of test_a test_b small_state "[EString ''a'', EString ''b'']", OF _ _ small_valid d]
  obtain r st' where
    "Intersection [EString ''a'', EString ''b''] test_a test_b small_state = Inr (r, st')"
    "passes (calls st') = passes (calls small_state) @ [test_b]"
    "probes test_a (calls st') = probes test_a (calls small_state) @ [EString ''a'', EString ''b'']"
    "\<forall>u. u \<noteq> test_a \<longrightarrow> probes u (calls st') = probes u (calls small_state)"
    by (auto simp: small_roles)
  then show ?thesis using l c ne by auto
qed

lemma agree_elems:
  assumes "native r" and "native r'" and "TypeOf r = TypeOf r'" and "elems st r = elems st' r'"
  shows "agree r st r' st'"
proof -
  have "answer (Contains r e) st = answer (Contains r' e) st'" for e
    using assms fits_same_type [OF assms(3), of e]
    by (cases "fits r e") (simp_all add: answer_Contains answer_Contains_unfit)
  then show ?thesis using assms by (simp add: agree_def answer_Len)
qed


section \<open>The operands after a call\<close>




section \<open>The order of delivery\<close>

text \<open>
  C10. For two valid sets of the same variant of the source, two runs of the same
  operation in which the channels deliver in different orders both return, and the two
  results answer alike: the same \<open>Len\<close> and the same \<open>Contains\<close> for every element.
\<close>

theorem order_independent:
  assumes "native s" and "TypeOf s = TypeOf t" and "valid st s" and "valid st t"
    and "delivers st s sv" and "delivers st t tv"
    and "delivers st s sv'" and "delivers st t tv'"
    and "delivers st (Intersection_iterated st s t) iv"
    and "delivers st (Intersection_iterated st s t) iv'"
  shows "(\<exists>r st1 r' st2. Union_op sv tv s t st = Inr (r, st1)
          \<and> Union_op sv' tv' s t st = Inr (r', st2) \<and> agree r st1 r' st2)
    \<and> (\<exists>r st1 r' st2. Intersection iv s t st = Inr (r, st1)
          \<and> Intersection iv' s t st = Inr (r', st2) \<and> agree r st1 r' st2)
    \<and> (\<exists>r st1 r' st2. Difference sv s t st = Inr (r, st1)
          \<and> Difference sv' s t st = Inr (r', st2) \<and> agree r st1 r' st2)
    \<and> (\<exists>r st1 r' st2. SymmetricDifference sv tv s t st = Inr (r, st1)
          \<and> SymmetricDifference sv' tv' s t st = Inr (r', st2) \<and> agree r st1 r' st2)"
proof -
  have a: "agree r st1 r' st2"
    if "r = StringSetV (Some (nxt st)) \<or> r = IntSetV (Some (nxt st))"
      "r' = StringSetV (Some (nxt st)) \<or> r' = IntSetV (Some (nxt st))"
      "TypeOf r = TypeOf s" "TypeOf r' = TypeOf s" "elems st1 r = X" "elems st2 r' = X"
    for r r' st1 st2 X
    using that by (intro agree_elems) auto
  have "\<exists>r st1 r' st2. Union_op sv tv s t st = Inr (r, st1)
          \<and> Union_op sv' tv' s t st = Inr (r', st2) \<and> agree r st1 r' st2"
    using Union_run [OF assms(1-6)] Union_run [OF assms(1-4) assms(7,8)] a by metis
  moreover have "\<exists>r st1 r' st2. Intersection iv s t st = Inr (r, st1)
          \<and> Intersection iv' s t st = Inr (r', st2) \<and> agree r st1 r' st2"
    using Intersection_run [OF assms(1-4) assms(9)] Intersection_run [OF assms(1-4) assms(10)] a
    by metis
  moreover have "\<exists>r st1 r' st2. Difference sv s t st = Inr (r, st1)
          \<and> Difference sv' s t st = Inr (r', st2) \<and> agree r st1 r' st2"
    using Difference_run [OF assms(1-5)] Difference_run [OF assms(1-4) assms(7)] a by metis
  moreover have "\<exists>r st1 r' st2. SymmetricDifference sv tv s t st = Inr (r, st1)
          \<and> SymmetricDifference sv' tv' s t st = Inr (r', st2) \<and> agree r st1 r' st2"
    using SymmetricDifference_run [OF assms(1-6)]
      SymmetricDifference_run [OF assms(1-4) assms(7,8)] a by metis
  ultimately show ?thesis by blast
qed


theorem order_independent_witness:
  "native test_a \<and> TypeOf test_a = TypeOf test_b \<and> valid test_state test_a
   \<and> valid test_state test_b
   \<and> delivers test_state test_a [EString ''a'', EString ''b'', EString ''c'']
   \<and> delivers test_state test_a [EString ''c'', EString ''a'', EString ''b'']
   \<and> delivers test_state test_b [EString ''b'', EString ''c'', EString ''d'']
   \<and> delivers test_state test_b [EString ''d'', EString ''c'', EString ''b'']
   \<and> (\<exists>r st1 r' st2.
         Union_op [EString ''a'', EString ''b'', EString ''c'']
           [EString ''b'', EString ''c'', EString ''d''] test_a test_b test_state = Inr (r, st1)
       \<and> Union_op [EString ''c'', EString ''a'', EString ''b'']
           [EString ''d'', EString ''c'', EString ''b''] test_a test_b test_state = Inr (r', st2)
       \<and> answer (Len r) st1 = answer (Len r') st2)"
  using order_independent [of test_a test_b test_state
      "[EString ''a'', EString ''b'', EString ''c'']"
      "[EString ''b'', EString ''c'', EString ''d'']"
      "[EString ''c'', EString ''a'', EString ''b'']"
      "[EString ''d'', EString ''c'', EString ''b'']"
      "[EString ''a'', EString ''b'', EString ''c'']"
      "[EString ''c'', EString ''a'', EString ''b'']"]
    test_valid test_delivers test_iterated
  by (auto simp: agree_def)

section \<open>\<open>SymmetricDifference\<close> and \<open>Difference\<close>\<close>



end
